theory Spec2Isabelle
  imports Main
begin

section \<open>Python errors and tuple construction\<close>

text \<open>
  Exceptions are values: every operation that can raise returns \<open>py_error + 'a\<close>, with
  \<open>Inl\<close> the exception. \<open>TypeError\<close>, \<open>IndexError\<close>, \<open>ValueError\<close> and
  \<open>AttributeError\<close> carry their message. \<open>ArityMismatch\<close> is the error of
  \<open>zip_strict\<close> (module \<open>utils\<close>) on sequences of different lengths.
\<close>

datatype py_error =
    TypeError string
  | IndexError string
  | ValueError string
  | AttributeError string
  | ArityMismatch

text \<open>
  \<open>tuple(gen)\<close> over a generator: the elements are computed in order and the first
  exception ends the construction.
\<close>

fun tuple_of :: "('e + 'a) list \<Rightarrow> 'e + 'a list" where
  "tuple_of [] = Inr []"
| "tuple_of (x # xs) =
     (case x of
        Inl e \<Rightarrow> Inl e
      | Inr v \<Rightarrow> (case tuple_of xs of Inl e \<Rightarrow> Inl e | Inr vs \<Rightarrow> Inr (v # vs)))"

section \<open>The numeric array library\<close>

text \<open>
  Modelled from the spec: the arrays of the numeric array library (NumPy), which
  \<open>axestuple.py\<close> imports and which is not part of the source. An array is its shape and
  its elements in row-major order; \<open>wf_array\<close> is the invariant that the number of
  elements is the product of the shape. The library's limit on the rank of an array and
  the rounding of floating-point arithmetic are not modelled: elements are values of any
  type for the operations that only move them, and of an ordered commutative semiring
  for the reductions.
\<close>

datatype 'a ndarray = NDArray (shape: "nat list") (flat: "'a list")

definition wf_array :: "'a ndarray \<Rightarrow> bool" where
  "wf_array a = (length (flat a) = prod_list (shape a))"

text \<open>Modelled from the spec: all multi-indices of a shape, in row-major order.\<close>

definition indices :: "nat list \<Rightarrow> nat list list" where
  "indices s = product_lists (map (\<lambda>n. [0..<n]) s)"

text \<open>
  Modelled from the spec: the row-major position of a multi-index, and the element of
  an array at a multi-index.
\<close>

fun ravel :: "nat list \<Rightarrow> nat list \<Rightarrow> nat" where
  "ravel (d # ds) (i # is) = i * prod_list ds + ravel ds is"
| "ravel _ _ = 0"

definition nd_item :: "'a ndarray \<Rightarrow> nat list \<Rightarrow> 'a" where
  "nd_item a idx = flat a ! ravel (shape a) idx"

text \<open>
  Modelled from the spec: broadcasting of shapes (NumPy, not in the source). Shapes are aligned at their last dimension; a missing dimension counts
  as 1. In each dimension of the result the arrays are visited in order, starting from
  1: a dimension of 1 is skipped, the first other one is taken, and a later one that
  differs from it is a shape mismatch.
\<close>

definition pad_shape :: "nat \<Rightarrow> nat list \<Rightarrow> nat list" where
  "pad_shape nd s = replicate (nd - length s) 1 @ s"

fun bc_column :: "nat \<Rightarrow> nat list \<Rightarrow> nat option" where
  "bc_column acc [] = Some acc"
| "bc_column acc (d # ds) =
     (if d = 1 then bc_column acc ds
      else if acc = 1 then bc_column d ds
      else if acc = d then bc_column acc ds
      else None)"

definition broadcast_shape :: "nat list list \<Rightarrow> py_error + nat list" where
  "broadcast_shape ss =
     (let nd = foldr max (map length ss) 0 in
      case those (map (\<lambda>j. bc_column 1 (map (\<lambda>s. pad_shape nd s ! j) ss)) [0..<nd]) of
        None \<Rightarrow> Inl (ValueError ''shape mismatch: objects cannot be broadcast to a single shape'')
      | Some t \<Rightarrow> Inr t)"

text \<open>
  Modelled from the spec: \<open>np.broadcast_arrays\<close> (NumPy, not in the source), "expanding
  singleton dimensions of multiple arrays to a common shape". The element of the
  broadcast array at a multi-index of the target shape is the element
  of the source at the same index, with the leading dimensions the source lacks dropped
  and index 0 in every dimension where the source has size 1.
\<close>

definition bc_index :: "nat list \<Rightarrow> nat list \<Rightarrow> nat list" where
  "bc_index src idx =
     map2 (\<lambda>d i. if d = 1 then 0 else i) src (drop (length idx - length src) idx)"

definition broadcast_to :: "'a ndarray \<Rightarrow> nat list \<Rightarrow> 'a ndarray" where
  "broadcast_to a t = NDArray t (map (\<lambda>idx. nd_item a (bc_index (shape a) idx)) (indices t))"

definition np_broadcast_arrays :: "'a ndarray list \<Rightarrow> py_error + 'a ndarray list" where
  "np_broadcast_arrays args =
     (case broadcast_shape (map shape args) of
        Inl e \<Rightarrow> Inl e
      | Inr t \<Rightarrow> Inr (map (\<lambda>a. broadcast_to a t) args))"


text \<open>
  Modelled from the spec: the reductions \<open>np.sum\<close>, \<open>np.any\<close>, \<open>np.all\<close>,
  \<open>np.min\<close>, \<open>np.max\<close> and \<open>np.prod\<close> (NumPy, not in the source). Each of them, given a sequence of arrays, first turn it
  into one array (\<open>np_asarray\<close>: \<open>K\<close> arrays of one shape \<open>t\<close> are stacked into an array
  of shape \<open>K # t\<close>; the empty sequence is an array of shape \<open>[0]\<close>) and then reduce over
  all of its elements. \<open>min\<close> and \<open>max\<close> have no identity and raise on an array
  without elements.
\<close>

datatype 'a scalar = Num 'a | Bool bool

definition np_asarray :: "'a ndarray list \<Rightarrow> py_error + 'a ndarray" where
  "np_asarray arrs =
     (case arrs of
        [] \<Rightarrow> Inr (NDArray [0] [])
      | a # _ \<Rightarrow>
          if list_all (\<lambda>b. shape b = shape a) arrs
          then Inr (NDArray (length arrs # shape a) (concat (map flat arrs)))
          else Inl (ValueError ''setting an array element with a sequence. The requested array has an inhomogeneous shape''))"

definition reduce_elements :: "string \<Rightarrow> ('a::{comm_semiring_1,linorder}) list \<Rightarrow> py_error + 'a scalar" where
  "reduce_elements name xs =
     (if name = ''sum'' then Inr (Num (sum_list xs))
      else if name = ''prod'' then Inr (Num (prod_list xs))
      else if name = ''any'' then Inr (Bool (list_ex (\<lambda>x. x \<noteq> 0) xs))
      else if name = ''all'' then Inr (Bool (list_all (\<lambda>x. x \<noteq> 0) xs))
      else if name = ''min'' then
        (case xs of
           [] \<Rightarrow> Inl (ValueError ''zero-size array to reduction operation minimum which has no identity'')
         | y # ys \<Rightarrow> Inr (Num (fold min ys y)))
      else if name = ''max'' then
        (case xs of
           [] \<Rightarrow> Inl (ValueError ''zero-size array to reduction operation maximum which has no identity'')
         | y # ys \<Rightarrow> Inr (Num (fold max ys y)))
      else Inl (AttributeError name))"

definition np_function :: "string \<Rightarrow> ('a::{comm_semiring_1,linorder}) ndarray list \<Rightarrow> py_error + 'a scalar" where
  "np_function name arrs =
     (case np_asarray arrs of
        Inl e \<Rightarrow> Inl e
      | Inr a \<Rightarrow> reduce_elements name (flat a))"

section \<open>ArrayTuple\<close>

text \<open>
  \<open>class ArrayTuple(tuple)\<close>: an immutable sequence of arrays. \<open>__getattr__\<close> either
  returns \<open>partial(getattr(np, name), np.broadcast_arrays(*self))\<close>, a \<open>partial\<close> of the
  name of the function and the argument bound to it, or a new \<open>ArrayTuple\<close> of the
  attribute read off every member. How a member answers \<open>getattr(a, name)\<close> is the
  array library's business and is a parameter.
\<close>

type_synonym 'a ArrayTuple = "'a ndarray list"

definition REDUCTIONS :: "string set" where
  "REDUCTIONS = {''sum'', ''any'', ''all'', ''min'', ''max'', ''prod''}"

datatype 'a partial = Partial string "'a ndarray list"

datatype ('a, 'v) attribute = Reduction "'a partial" | Members "'v list"

definition ArrayTuple_getattr ::
  "('a ndarray \<Rightarrow> string \<Rightarrow> py_error + 'v) \<Rightarrow> 'a ArrayTuple \<Rightarrow> string \<Rightarrow> py_error + ('a, 'v) attribute" where
  "ArrayTuple_getattr member_getattr self name =
     (if name \<in> REDUCTIONS then
        (case np_broadcast_arrays self of
           Inl e \<Rightarrow> Inl e
         | Inr bs \<Rightarrow> Inr (Reduction (Partial name bs)))
      else
        (case tuple_of (map (\<lambda>a. member_getattr a name) self) of
           Inl e \<Rightarrow> Inl e
         | Inr vs \<Rightarrow> Inr (Members vs)))"

text \<open>Calling the \<open>partial\<close> with no further argument.\<close>

fun call_partial :: "('a::{comm_semiring_1,linorder}) partial \<Rightarrow> py_error + 'a scalar" where
  "call_partial (Partial name bs) = np_function name bs"

definition ArrayTuple_broadcast :: "'a ArrayTuple \<Rightarrow> py_error + 'a ArrayTuple" where
  "ArrayTuple_broadcast self = np_broadcast_arrays self"

text \<open>
  \<open>__call__\<close>: every member is called with the arguments; how a member answers a call
  is a parameter.
\<close>

definition ArrayTuple_call :: "('m \<Rightarrow> 'x \<Rightarrow> py_error + 'v) \<Rightarrow> 'm list \<Rightarrow> 'x \<Rightarrow> py_error + 'v list" where
  "ArrayTuple_call member_call self args = tuple_of (map (\<lambda>a. member_call a args) self)"

text \<open>
  The reading of the reduction semantics in the spec's words, for comparison with the
  code: "broadcasting all members to a common shape, stacking them, and reducing over the
  ensemble" is \<open>ensemble_reduction\<close>; "reducing each member separately then combining"
  is \<open>per_member_reduction\<close>, where the per-member results are combined by the same
  reduction (a truth value counts as 1 or 0, as it does in the library).
\<close>

definition ensemble_reduction ::
  "string \<Rightarrow> ('a::{comm_semiring_1,linorder}) ArrayTuple \<Rightarrow> py_error + 'a scalar" where
  "ensemble_reduction name self =
     (case broadcast_shape (map shape self) of
        Inl e \<Rightarrow> Inl e
      | Inr t \<Rightarrow> reduce_elements name (concat (map (\<lambda>a. flat (broadcast_to a t)) self)))"

fun scalar_value :: "('a::{comm_semiring_1,linorder}) scalar \<Rightarrow> 'a" where
  "scalar_value (Num x) = x"
| "scalar_value (Bool b) = of_bool b"

definition per_member_reduction ::
  "string \<Rightarrow> ('a::{comm_semiring_1,linorder}) ArrayTuple \<Rightarrow> py_error + 'a scalar" where
  "per_member_reduction name self =
     (case tuple_of (map (\<lambda>a. reduce_elements name (flat a)) self) of
        Inl e \<Rightarrow> Inl e
      | Inr rs \<Rightarrow> reduce_elements name (map scalar_value rs))"

section \<open>Axis objects and the store\<close>

text \<open>
  Modelled from the spec: the axis descriptor (class \<open>Axis\<close> of module \<open>axis\<close>, which
  \<open>axestuple.py\<close> imports and which is not in the source). The spec gives it \<open>size\<close> and
  \<open>extent\<close> (integers), \<open>centers\<close>, \<open>edges\<close> and \<open>widths\<close> (1-D numeric sequences), the
  methods \<open>value\<close>, \<open>bin\<close> and \<open>index\<close>, and arbitrary additional readable and writable
  attributes reached by generic forwarding: \<open>ax_attrs\<close> holds those, and \<open>ax_readonly\<close>
  lists the names the axis refuses to write.
\<close>

record ('a, 'v) Axis =
  ax_size :: int
  ax_extent :: int
  ax_centers :: "'a list"
  ax_edges :: "'a list"
  ax_widths :: "'a list"
  ax_value :: "'a \<Rightarrow> py_error + 'a"
  ax_bin :: "'a \<Rightarrow> py_error + 'a"
  ax_index :: "'a \<Rightarrow> py_error + 'a"
  ax_attrs :: "string \<rightharpoonup> 'v"
  ax_readonly :: "string list"

text \<open>
  A Python object is an \<open>Axis\<close> or something else, of which only its \<open>str\<close> matters
  here. Objects live in a store and are held by reference, so that two members of a
  tuple can be the same object.
\<close>

datatype ('a, 'v) py_object = AxisObj "('a, 'v) Axis" | OtherObj string

type_synonym ref = nat

type_synonym ('a, 'v) store = "ref \<Rightarrow> ('a, 'v) py_object"

fun isinstance_Axis :: "('a, 'v) py_object \<Rightarrow> bool" where
  "isinstance_Axis (AxisObj a) = True"
| "isinstance_Axis (OtherObj s) = False"

text \<open>
  Modelled from the spec: reading a property, calling a method, \<open>getattr\<close> and
  \<open>__setattr__\<close> on an object of the store (class \<open>Axis\<close> is not in the source). An
  object that is not an axis has none of the attributes; an axis answers \<open>getattr\<close>
  from its additional attributes and stores a write there unless the name is read-only.
\<close>

fun read_property :: "(('a, 'v) Axis \<Rightarrow> 'b) \<Rightarrow> string \<Rightarrow> ('a, 'v) py_object \<Rightarrow> py_error + 'b" where
  "read_property f name (AxisObj a) = Inr (f a)"
| "read_property f name (OtherObj s) = Inl (AttributeError name)"





section \<open>Built-in tuple and object behaviour\<close>

text \<open>
  Modelled from the spec: "standard ordered-sequence indexing/slicing", which is
  \<open>tuple.__getitem__\<close> of the language: an integer index counts from the end when
  negative and must be in range; a slice \<open>start:stop:step\<close> is clipped to the length.
\<close>

datatype subscript = Index int | Slice "int option" "int option" "int option"

definition slice_indices ::
  "int \<Rightarrow> int option \<Rightarrow> int option \<Rightarrow> int option \<Rightarrow> py_error + (int \<times> int \<times> int)" where
  "slice_indices n start stop step =
     (let st = (case step of None \<Rightarrow> 1 | Some s \<Rightarrow> s) in
      if st = 0 then Inl (ValueError ''slice step cannot be zero'')
      else
        let lower = (if st < 0 then - 1 else 0);
            upper = (if st < 0 then n - 1 else n);
            clip = (\<lambda>s. if s < 0 then max (s + n) lower else min s upper);
            lo = (case start of None \<Rightarrow> (if st < 0 then upper else lower) | Some s \<Rightarrow> clip s);
            hi = (case stop of None \<Rightarrow> (if st < 0 then lower else upper) | Some s \<Rightarrow> clip s)
        in Inr (lo, hi, st))"

definition slice_length :: "int \<Rightarrow> int \<Rightarrow> int \<Rightarrow> nat" where
  "slice_length lo hi st =
     (if st > 0 then (if lo < hi then nat ((hi - lo - 1) div st + 1) else 0)
      else (if hi < lo then nat ((lo - hi - 1) div (- st) + 1) else 0))"

fun tuple_getitem :: "'a list \<Rightarrow> subscript \<Rightarrow> py_error + ('a + 'a list)" where
  "tuple_getitem xs (Index i) =
     (let n = int (length xs); j = (if i < 0 then i + n else i) in
      if 0 \<le> j \<and> j < n then Inr (Inl (xs ! nat j))
      else Inl (IndexError ''tuple index out of range''))"
| "tuple_getitem xs (Slice start stop step) =
     (case slice_indices (int (length xs)) start stop step of
        Inl e \<Rightarrow> Inl e
      | Inr (lo, hi, st) \<Rightarrow>
          Inr (Inr (map (\<lambda>k. xs ! nat (lo + int k * st)) [0..<slice_length lo hi st])))"

section \<open>AxesTuple\<close>

text \<open>
  \<open>class AxesTuple(tuple)\<close> with \<open>__slots__ = ()\<close>: the members, by reference, and the
  values of the instance's own slots (\<open>own\<close>), of which the class declares none.
\<close>

record 'v AxesTuple =
  members :: "ref list"
  own :: "string \<rightharpoonup> 'v list"




text \<open>
  \<open>__init__\<close>: the loop over the members raises at the first one that is not an
  \<open>Axis\<close>; the constructor then returns no object.
\<close>

fun init_loop :: "('a, 'v) store \<Rightarrow> ref list \<Rightarrow> py_error option" where
  "init_loop h [] = None"
| "init_loop h (r # rs) =
     (case h r of
        AxisObj a \<Rightarrow> init_loop h rs
      | OtherObj s \<Rightarrow> Some (TypeError (''Only an iterable of Axis supported in AxesTuple, got '' @ s)))"

definition AxesTuple_new :: "('a, 'v) store \<Rightarrow> ref list \<Rightarrow> py_error + 'w AxesTuple" where
  "AxesTuple_new h iterable =
     (case init_loop h iterable of
        Some e \<Rightarrow> Inl e
      | None \<Rightarrow> Inr \<lparr>members = iterable, own = Map.empty\<rparr>)"


definition AxesTuple_extent :: "('a, 'v) store \<Rightarrow> 'w AxesTuple \<Rightarrow> py_error + int list" where
  "AxesTuple_extent h self = tuple_of (map (\<lambda>s. read_property ax_extent ''extent'' (h s)) (members self))"








text \<open>
  \<open>__getitem__\<close>: a member comes back as it is (an axis object is not a tuple), a slice
  is passed to the constructor again.
\<close>

datatype 'v item_result = Bare ref | Wrapped "'v AxesTuple"

definition AxesTuple_getitem :: "('a, 'v) store \<Rightarrow> 'w AxesTuple \<Rightarrow> subscript \<Rightarrow> py_error + 'w item_result" where
  "AxesTuple_getitem h self item =
     (case tuple_getitem (members self) item of
        Inl e \<Rightarrow> Inl e
      | Inr (Inl result) \<Rightarrow> Inr (Bare result)
      | Inr (Inr result) \<Rightarrow>
          (case AxesTuple_new h result of Inl e \<Rightarrow> Inl e | Inr t \<Rightarrow> Inr (Wrapped t)))"






section \<open>The properties in the spec's words\<close>

text \<open>
  "The corresponding sub-sequence" of a slice \<open>start:stop\<close>: a bound that is left out
  is the end of the sequence on its side, a negative bound counts from the end, and both
  are clipped to the sequence; the slice is what lies from the first bound up to the
  second.
\<close>

definition slice_bound :: "nat \<Rightarrow> nat \<Rightarrow> int option \<Rightarrow> nat" where
  "slice_bound n d x =
     (case x of None \<Rightarrow> d | Some s \<Rightarrow> if s < 0 then nat (s + int n) else min (nat s) n)"

definition subsequence :: "'a list \<Rightarrow> int option \<Rightarrow> int option \<Rightarrow> 'a list" where
  "subsequence xs start stop =
     drop (slice_bound (length xs) 0 start) (take (slice_bound (length xs) (length xs) stop) xs)"



text \<open>
  A shape \<open>s\<close> can be broadcast to a shape \<open>t\<close> when, aligned at the last dimension,
  each of its dimensions is 1 or the dimension of \<open>t\<close>.
\<close>

definition broadcastable_to :: "nat list \<Rightarrow> nat list \<Rightarrow> bool" where
  "broadcastable_to s t \<longleftrightarrow>
     length s \<le> length t \<and>
     (\<forall>j<length s. s ! j = 1 \<or> s ! j = t ! (j + (length t - length s)))"

section \<open>A concrete scenario\<close>

text \<open>
  Two axes with integer coordinates: 3 bins of width 2 from 0 and 2 bins of width 10
  from 0, each with one overflow bin. References 0 and 1 hold them; every other
  reference holds an object that is not an axis and prints as \<open>42\<close>. The second
  container holds the first axis twice.
\<close>

definition axis3 :: "(int, string) Axis" where
  "axis3 = \<lparr>ax_size = 3, ax_extent = 4, ax_centers = [1, 3, 5], ax_edges = [0, 2, 4, 6],
     ax_widths = [2, 2, 2], ax_value = (\<lambda>i. Inr (2 * i)), ax_bin = (\<lambda>i. Inr (2 * i + 1)),
     ax_index = (\<lambda>x. Inr (x div 2)), ax_attrs = Map.empty,
     ax_readonly = [''size'', ''extent'', ''centers'', ''edges'', ''widths'']\<rparr>"

definition axis2 :: "(int, string) Axis" where
  "axis2 = \<lparr>ax_size = 2, ax_extent = 3, ax_centers = [5, 15], ax_edges = [0, 10, 20],
     ax_widths = [10, 10], ax_value = (\<lambda>i. Inr (10 * i)), ax_bin = (\<lambda>i. Inr (10 * i + 5)),
     ax_index = (\<lambda>x. Inr (x div 10)), ax_attrs = Map.empty,
     ax_readonly = [''size'', ''extent'', ''centers'', ''edges'', ''widths'']\<rparr>"

definition example_store :: "(int, string) store" where
  "example_store r =
     (if r = 0 then AxisObj axis3 else if r = 1 then AxisObj axis2 else OtherObj ''42'')"

definition example_axes :: "string AxesTuple" where
  "example_axes = \<lparr>members = [0, 1], own = Map.empty\<rparr>"


text \<open>
  Two arrays of shapes \<open>(2, 1)\<close> and \<open>(1, 3)\<close>, and a one-element array beside an
  array without elements.
\<close>

definition sparse_pair :: "int ArrayTuple" where
  "sparse_pair = [NDArray [2, 1] [1, 2], NDArray [1, 3] [10, 20, 30]]"

definition with_empty :: "int \<Rightarrow> int ArrayTuple" where
  "with_empty x = [NDArray [1] [x], NDArray [0] []]"

section \<open>Indexing and broadcasting of arrays\<close>

lemma length_indices: "length (indices t) = prod_list t"
  unfolding indices_def by (induction t) (simp_all add: length_concat comp_def sum_list_triv)

lemma concat_upt_blocks:
  "concat (map (\<lambda>i. map (\<lambda>j. i * p + j) [0..<p]) [0..<d]) = [0..<d * p]"
proof (induction d)
  case 0
  then show ?case by simp
next
  case (Suc d)
  have block: "map (\<lambda>j. d * p + j) [0..<p] = [d * p..<d * p + p]"
    by (simp add: map_add_upt add.commute)
  have "[0..<d * p + p] = [0..<d * p] @ [d * p..<d * p + p]"
    by (rule upt_add_eq_append) simp
  then have "[0..<Suc d * p] = [0..<d * p] @ [d * p..<d * p + p]"
    by (simp add: add.commute)
  then show ?case using Suc block by simp
qed

lemma map_ravel_indices: "map (ravel t) (indices t) = [0..<prod_list t]"
proof (induction t)
  case Nil
  then show ?case by (simp add: indices_def)
next
  case (Cons d ds)
  have "map (ravel (d # ds)) (indices (d # ds)) =
        concat (map (\<lambda>i. map (\<lambda>is. i * prod_list ds + ravel ds is) (indices ds)) [0..<d])"
    by (simp add: indices_def map_concat comp_def)
  also have "\<dots> = concat (map (\<lambda>i. map (\<lambda>j. i * prod_list ds + j) (map (ravel ds) (indices ds))) [0..<d])"
    by (simp add: comp_def)
  also have "\<dots> = [0..<d * prod_list ds]"
    by (simp only: Cons.IH concat_upt_blocks)
  finally show ?case by simp
qed

lemma indices_nth_ravel:
  assumes "idx \<in> set (indices t)"
  shows "ravel t idx < prod_list t \<and> indices t ! ravel t idx = idx"
proof -
  from assms obtain k where k: "k < length (indices t)" "indices t ! k = idx"
    by (auto simp: in_set_conv_nth)
  have "map (ravel t) (indices t) ! k = [0..<prod_list t] ! k"
    by (simp only: map_ravel_indices)
  with k have "ravel t idx = k" by (simp add: length_indices)
  with k show ?thesis by (simp add: length_indices)
qed

lemma in_indices_iff:
  "idx \<in> set (indices t) \<longleftrightarrow> length idx = length t \<and> (\<forall>j<length t. idx ! j < t ! j)"
  unfolding indices_def product_lists_set
  by (auto simp: list_all2_conv_all_nth)


lemma bc_index_same:
  assumes "idx \<in> set (indices t)"
  shows "bc_index t idx = idx"
proof -
  from assms have len: "length idx = length t" and lt: "\<forall>j<length t. idx ! j < t ! j"
    by (simp_all add: in_indices_iff)
  show ?thesis
    unfolding bc_index_def using len lt
    by (auto intro!: nth_equalityI)
qed

lemma map_nth_ravel_indices:
  assumes "length xs = prod_list t"
  shows "map (\<lambda>idx. xs ! ravel t idx) (indices t) = xs"
proof -
  have "map (\<lambda>idx. xs ! ravel t idx) (indices t) = map ((!) xs) (map (ravel t) (indices t))"
    by (simp add: comp_def)
  also have "\<dots> = map ((!) xs) [0..<length xs]"
    by (simp only: map_ravel_indices assms)
  also have "\<dots> = xs" by (rule map_nth)
  finally show ?thesis .
qed

lemma broadcast_to_same:
  assumes "wf_array a"
  shows "broadcast_to a (shape a) = a"
proof -
  have "map (\<lambda>idx. nd_item a (bc_index (shape a) idx)) (indices (shape a)) =
        map (\<lambda>idx. flat a ! ravel (shape a) idx) (indices (shape a))"
    by (rule map_cong) (simp_all add: bc_index_same nd_item_def)
  also have "\<dots> = flat a"
    using assms by (simp add: map_nth_ravel_indices wf_array_def)
  finally show ?thesis by (cases a) (simp add: broadcast_to_def)
qed

lemma wf_broadcast_to: "wf_array (broadcast_to a t)"
  by (simp add: wf_array_def broadcast_to_def length_indices)

section \<open>Broadcast shapes\<close>

lemma those_eq_Some: "those xs = Some ys \<longleftrightarrow> xs = map Some ys"
  by (induction xs arbitrary: ys) (auto split: option.splits)

lemma those_map_upt:
  "those (map f [0..<n]) = Some t \<longleftrightarrow> length t = n \<and> (\<forall>j<n. f j = Some (t ! j))"
proof -
  have "map f [0..<n] = map Some t \<longleftrightarrow> length t = n \<and> (\<forall>j<n. f j = Some (t ! j))"
    by (auto simp: list_eq_iff_nth_eq)
  then show ?thesis by (simp add: those_eq_Some)
qed

lemma bc_column_sound:
  "bc_column acc ds = Some t \<Longrightarrow>
     (\<forall>d\<in>set ds. d = 1 \<or> d = t) \<and> (acc = t \<or> acc = 1 \<and> t \<in> set ds)"
proof (induction acc ds rule: bc_column.induct)
  case (1 acc)
  then show ?case by simp
next
  case (2 acc d ds)
  show ?case
  proof (cases "d = 1")
    case True
    with 2 show ?thesis by auto
  next
    case d: False
    show ?thesis
    proof (cases "acc = 1")
      case True
      with d 2 have "bc_column d ds = Some t" by simp
      with 2(2)[OF d True] have "(\<forall>d\<in>set ds. d = 1 \<or> d = t) \<and> (d = t \<or> d = 1 \<and> t \<in> set ds)" by simp
      with d True show ?thesis by auto
    next
      case False
      with d 2 have eq: "acc = d" and r: "bc_column acc ds = Some t" by (simp_all split: if_splits)
      from 2(3)[OF d False eq r] eq False show ?thesis by auto
    qed
  qed
qed

lemma bc_column_complete:
  "(\<forall>d\<in>set ds. d = 1 \<or> d = t) \<Longrightarrow> acc = t \<or> acc = 1 \<and> t \<in> set ds \<Longrightarrow>
     bc_column acc ds = Some t"
proof (induction acc ds rule: bc_column.induct)
  case (1 acc)
  then show ?case by simp
next
  case (2 acc d ds)
  show ?case
  proof (cases "d = 1")
    case True
    with 2(4,5) have "bc_column acc ds = Some t" by (intro 2(1)) auto
    with True show ?thesis by simp
  next
    case d: False
    with 2(4) have dt: "d = t" by simp
    show ?thesis
    proof (cases "acc = 1")
      case True
      from 2(4) dt have "bc_column d ds = Some t" by (intro 2(2)[OF d True]) auto
      with d True show ?thesis by simp
    next
      case False
      with 2(5) have eq: "acc = d" using dt by simp
      from 2(4) dt eq have "bc_column acc ds = Some t" by (intro 2(3)[OF d False eq]) auto
      with d False eq show ?thesis by simp
    qed
  qed
qed

lemma broadcast_shape_iff:
  "broadcast_shape ss = Inr t \<longleftrightarrow>
     length t = foldr max (map length ss) 0 \<and>
     (\<forall>j<length t. bc_column 1 (map (\<lambda>s. pad_shape (length t) s ! j) ss) = Some (t ! j))"
proof -
  define nd where "nd = foldr max (map length ss) 0"
  define f where "f = (\<lambda>j. bc_column 1 (map (\<lambda>s. pad_shape nd s ! j) ss))"
  have "broadcast_shape ss = Inr t \<longleftrightarrow> those (map f [0..<nd]) = Some t"
    unfolding broadcast_shape_def Let_def nd_def f_def
    by (simp split: option.splits)
  also have "\<dots> \<longleftrightarrow> length t = nd \<and> (\<forall>j<nd. f j = Some (t ! j))"
    by (rule those_map_upt)
  also have "\<dots> \<longleftrightarrow> length t = nd \<and>
      (\<forall>j<length t. bc_column 1 (map (\<lambda>s. pad_shape (length t) s ! j) ss) = Some (t ! j))"
    unfolding f_def by auto
  finally show ?thesis unfolding nd_def .
qed

lemma foldr_max_ge: "s \<in> set ss \<Longrightarrow> length s \<le> foldr max (map length ss) 0"
  by (induction ss) auto

lemma foldr_max_le: "\<forall>s\<in>set ss. length s \<le> n \<Longrightarrow> foldr max (map length ss) 0 \<le> n"
  by (induction ss) auto

lemma foldr_max_same:
  assumes "ss \<noteq> []" and "\<forall>s\<in>set ss. length s = n"
  shows "foldr max (map length ss) 0 = n"
proof (rule antisym)
  show "foldr max (map length ss) 0 \<le> n"
    using assms(2) by (intro foldr_max_le) simp
  from assms obtain s where "s \<in> set ss" "length s = n" by (cases ss) auto
  then show "n \<le> foldr max (map length ss) 0"
    using foldr_max_ge by blast
qed

lemma pad_shape_full: "pad_shape (length t) t = t"
  by (simp add: pad_shape_def)

lemma bc_column_replicate: "0 < k \<Longrightarrow> bc_column 1 (replicate k d) = Some d"
  by (rule bc_column_complete) (auto simp: set_replicate_conv_if)

lemma broadcast_shape_same:
  assumes "ss \<noteq> []" and "\<forall>s\<in>set ss. s = t"
  shows "broadcast_shape ss = Inr t"
proof -
  have nd: "foldr max (map length ss) 0 = length t"
    using assms by (intro foldr_max_same) auto
  have "bc_column 1 (map (\<lambda>s. pad_shape (length t) s ! j) ss) = Some (t ! j)" for j
  proof -
    have "map (\<lambda>s. pad_shape (length t) s ! j) ss = map (\<lambda>s. t ! j) ss"
      using assms(2) by (intro map_cong) (simp_all add: pad_shape_full)
    also have "\<dots> = replicate (length ss) (t ! j)"
      by (simp add: map_replicate_const)
    finally show ?thesis
      using assms(1) bc_column_replicate[of "length ss" "t ! j"] by simp
  qed
  with nd show ?thesis by (simp add: broadcast_shape_iff)
qed

lemma broadcast_shape_Nil: "broadcast_shape [] = Inr []"
  by (simp add: broadcast_shape_def)

lemma np_broadcast_arrays_dense:
  assumes "\<forall>a\<in>set self. shape a = t \<and> wf_array a"
  shows "np_broadcast_arrays self = Inr self"
proof (cases "self = []")
  case True
  then show ?thesis by (simp add: np_broadcast_arrays_def broadcast_shape_Nil)
next
  case False
  with assms have "broadcast_shape (map shape self) = Inr t"
    by (intro broadcast_shape_same) auto
  moreover have "map (\<lambda>a. broadcast_to a t) self = self"
    using assms by (intro map_idI) (auto dest: broadcast_to_same)
  ultimately show ?thesis by (simp add: np_broadcast_arrays_def)
qed

lemma np_broadcast_arrays_result:
  assumes "np_broadcast_arrays self = Inr bs"
  obtains t where "broadcast_shape (map shape self) = Inr t"
    and "bs = map (\<lambda>a. broadcast_to a t) self"
  using assms by (auto simp: np_broadcast_arrays_def split: sum.splits)

section \<open>Tuples and construction\<close>

lemma init_loop_None: "init_loop h xs = None \<longleftrightarrow> (\<forall>r\<in>set xs. isinstance_Axis (h r))"
  by (induction xs) (auto split: py_object.splits)

lemma init_loop_Some:
  "init_loop h xs = Some e \<Longrightarrow>
     \<exists>pre r s post. xs = pre @ r # post \<and> (\<forall>p\<in>set pre. isinstance_Axis (h p)) \<and>
       h r = OtherObj s \<and> e = TypeError (''Only an iterable of Axis supported in AxesTuple, got '' @ s)"
proof (induction xs)
  case Nil
  then show ?case by simp
next
  case (Cons x xs)
  show ?case
  proof (cases "h x")
    case (AxisObj a)
    with Cons.prems have "init_loop h xs = Some e" by simp
    from Cons.IH[OF this] obtain pre r s post where
      *: "xs = pre @ r # post" "\<forall>p\<in>set pre. isinstance_Axis (h p)" "h r = OtherObj s"
      "e = TypeError (''Only an iterable of Axis supported in AxesTuple, got '' @ s)"
      by blast
    from * AxisObj have "x # xs = (x # pre) @ r # post \<and> (\<forall>p\<in>set (x # pre). isinstance_Axis (h p))"
      by simp
    with * show ?thesis by blast
  next
    case (OtherObj s)
    with Cons.prems have "e = TypeError (''Only an iterable of Axis supported in AxesTuple, got '' @ s)"
      by simp
    with OtherObj have "x # xs = [] @ x # xs \<and> (\<forall>p\<in>set []. isinstance_Axis (h p)) \<and> h x = OtherObj s
       \<and> e = TypeError (''Only an iterable of Axis supported in AxesTuple, got '' @ s)" by simp
    then show ?thesis by blast
  qed
qed

lemma tuple_of_map_Inr: "tuple_of (map Inr vs) = Inr vs"
  by (induction vs) simp_all




lemma tuple_of_first_error:
  assumes "Inl e \<in> set xs" and "\<forall>x\<in>set xs. isl x \<longrightarrow> x = Inl e"
  shows "tuple_of xs = Inl e"
  using assms
proof (induction xs)
  case Nil
  then show ?case by simp
next
  case (Cons x xs)
  show ?case
  proof (cases x)
    case (Inl e')
    from Cons.prems(2) have "isl x \<longrightarrow> x = Inl e" by simp
    with Inl have "e' = e" by simp
    with Inl show ?thesis by simp
  next
    case (Inr v)
    with Cons.prems(1) have 1: "Inl e \<in> set xs" by auto
    from Cons.prems(2) have 2: "\<forall>x\<in>set xs. isl x \<longrightarrow> x = Inl e" by simp
    from Cons.IH[OF 1 2] Inr show ?thesis by simp
  qed
qed

section \<open>Indexing and slicing of tuples\<close>

lemma map_nth_offset:
  "lo + m \<le> length xs \<Longrightarrow> map (\<lambda>k. xs ! (lo + k)) [0..<m] = take m (drop lo xs)"
  by (auto intro!: nth_equalityI)

lemma slice_indices_unit:
  "slice_indices (int n) start stop None =
     Inr (int (slice_bound n 0 start), int (slice_bound n n stop), 1)"
  by (auto simp: slice_indices_def slice_bound_def Let_def split: option.splits)

lemma tuple_getitem_slice:
  "tuple_getitem xs (Slice start stop None) = Inr (Inr (subsequence xs start stop))"
proof -
  define n where "n = length xs"
  define lo where "lo = slice_bound n 0 start"
  define hi where "hi = slice_bound n n stop"
  have hi_le: "hi \<le> n"
    by (auto simp: hi_def slice_bound_def split: option.splits)
  have len: "slice_length (int lo) (int hi) 1 = hi - lo"
    by (auto simp: slice_length_def)
  have "map (\<lambda>k. xs ! nat (int lo + int k * 1)) [0..<hi - lo] = map (\<lambda>k. xs ! (lo + k)) [0..<hi - lo]"
    by (rule map_cong) (simp_all add: nat_add_distrib)
  also have "\<dots> = drop lo (take hi xs)"
  proof (cases "lo \<le> hi")
    case True
    with hi_le have "lo + (hi - lo) \<le> length xs" by (simp add: n_def)
    then have "map (\<lambda>k. xs ! (lo + k)) [0..<hi - lo] = take (hi - lo) (drop lo xs)"
      by (rule map_nth_offset)
    then show ?thesis by (simp add: drop_take)
  next
    case False
    then show ?thesis by simp
  qed
  finally show ?thesis
    by (simp add: slice_indices_unit[of "length xs", folded n_def] len subsequence_def
        n_def[symmetric] lo_def[symmetric] hi_def[symmetric])
qed

lemma set_subsequence: "set (subsequence xs start stop) \<subseteq> set xs"
  unfolding subsequence_def by (meson set_drop_subset set_take_subset subset_trans)

lemma tuple_getitem_nonneg:
  assumes "0 \<le> i" "i < int (length xs)"
  shows "tuple_getitem xs (Index i) = Inr (Inl (xs ! nat i))"
  using assms by (simp add: Let_def)

lemma tuple_getitem_neg:
  assumes "- int (length xs) \<le> i" "i < 0"
  shows "tuple_getitem xs (Index i) = Inr (Inl (xs ! nat (i + int (length xs))))"
  using assms by (simp add: Let_def)

lemma subsequence_valid:
  assumes valid: "\<forall>r\<in>set (members self). isinstance_Axis (h r)"
  shows "\<forall>r\<in>set (subsequence (members self) start stop). isinstance_Axis (h r)"
  using valid set_subsequence[of "members self" start stop] by (meson subsetD)

lemma AxesTuple_getitem_slice:
  assumes "\<forall>r\<in>set (subsequence (members self) start stop). isinstance_Axis (h r)"
  shows "AxesTuple_getitem h self (Slice start stop None) =
        Inr (Wrapped \<lparr>members = subsequence (members self) start stop, own = Map.empty\<rparr>)"
proof -
  from assms have "init_loop h (subsequence (members self) start stop) = None"
    by (simp only: init_loop_None)
  then show ?thesis
    unfolding AxesTuple_getitem_def AxesTuple_new_def
    by (simp only: tuple_getitem_slice sum.case option.case)
qed

section \<open>Attribute writes\<close>












section \<open>Sparse grids\<close>












section \<open>Elements of broadcast arrays\<close>

lemma pad_shape_nth:
  "pad_shape n s ! (j + (n - length s)) = s ! j"
proof -
  have "pad_shape n s ! (length (replicate (n - length s) (1::nat)) + j) = s ! j"
    unfolding pad_shape_def by (rule nth_append_length_plus)
  then show ?thesis by (simp only: length_replicate add.commute)
qed

lemma broadcast_shape_broadcastable:
  assumes bs: "broadcast_shape ss = Inr t" and s: "s \<in> set ss"
  shows "broadcastable_to s t"
proof -
  from bs[unfolded broadcast_shape_iff] have nd: "length t = foldr max (map length ss) 0"
    and col: "\<And>j. j < length t \<Longrightarrow>
      bc_column 1 (map (\<lambda>s. pad_shape (length t) s ! j) ss) = Some (t ! j)"
    by blast+
  from s have len: "length s \<le> length t"
    unfolding nd by (rule foldr_max_ge)
  have "s ! j = 1 \<or> s ! j = t ! (j + (length t - length s))" if j: "j < length s" for j
  proof -
    let ?j = "j + (length t - length s)"
    from j len have "?j < length t" by simp
    from bc_column_sound[OF col[OF this]] s
    have "pad_shape (length t) s ! ?j = 1 \<or> pad_shape (length t) s ! ?j = t ! ?j"
      by auto
    then show ?thesis by (simp only: pad_shape_nth)
  qed
  with len show ?thesis by (simp add: broadcastable_to_def)
qed

lemma zero_in_pad_shape: "0 \<in> set (pad_shape n s) \<longleftrightarrow> 0 \<in> set s"
  by (auto simp: pad_shape_def)

lemma broadcast_shape_zero:
  assumes bs: "broadcast_shape ss = Inr t"
  shows "0 \<in> set t \<longleftrightarrow> (\<exists>s\<in>set ss. 0 \<in> set s)"
proof
  assume "0 \<in> set t"
  then obtain j where j: "j < length t" "t ! j = 0" by (auto simp: in_set_conv_nth)
  from bs[unfolded broadcast_shape_iff] j
  have "bc_column 1 (map (\<lambda>s. pad_shape (length t) s ! j) ss) = Some 0"
    by metis
  from bc_column_sound[OF this]
  have "0 \<in> set (map (\<lambda>s. pad_shape (length t) s ! j) ss)" by simp
  then obtain s where s: "s \<in> set ss" "pad_shape (length t) s ! j = 0" by auto
  from broadcast_shape_broadcastable[OF bs s(1)] have "length s \<le> length t"
    by (simp add: broadcastable_to_def)
  with j have "j < length (pad_shape (length t) s)" by (simp add: pad_shape_def)
  with s(2) have "0 \<in> set (pad_shape (length t) s)" by (metis nth_mem)
  with s(1) show "\<exists>s\<in>set ss. 0 \<in> set s" by (auto simp: zero_in_pad_shape)
next
  assume "\<exists>s\<in>set ss. 0 \<in> set s"
  then obtain s j where s: "s \<in> set ss" and j: "j < length s" "s ! j = 0"
    by (auto simp: in_set_conv_nth)
  from broadcast_shape_broadcastable[OF bs s] j
  have "length s \<le> length t" "t ! (j + (length t - length s)) = 0"
    by (auto simp: broadcastable_to_def)
  moreover from this j have "j + (length t - length s) < length t" by simp
  ultimately show "0 \<in> set t" by (metis nth_mem)
qed

lemma bc_index_length:
  "length s \<le> length idx \<Longrightarrow> length (bc_index s idx) = length s"
  by (simp add: bc_index_def)

lemma bc_index_nth:
  "length s \<le> length idx \<Longrightarrow> j < length s \<Longrightarrow>
     bc_index s idx ! j = (if s ! j = 1 then 0 else idx ! (j + (length idx - length s)))"
  by (simp add: bc_index_def add.commute)

lemma bc_index_in_indices:
  assumes c: "broadcastable_to s t" and idx: "idx \<in> set (indices t)"
  shows "bc_index s idx \<in> set (indices s)"
proof -
  from idx have len: "length idx = length t" and lt: "\<And>j. j < length t \<Longrightarrow> idx ! j < t ! j"
    by (simp_all add: in_indices_iff)
  from c have le: "length s \<le> length idx" by (simp add: broadcastable_to_def len)
  have "bc_index s idx ! j < s ! j" if j: "j < length s" for j
  proof (cases "s ! j = 1")
    case True
    then show ?thesis by (simp add: bc_index_nth[OF le j])
  next
    case False
    with c j have eq: "s ! j = t ! (j + (length t - length s))"
      by (auto simp: broadcastable_to_def)
    from j le len have "j + (length t - length s) < length t" by simp
    from lt[OF this] False eq show ?thesis
      by (simp add: bc_index_nth[OF le j] len)
  qed
  then show ?thesis
    by (simp add: in_indices_iff bc_index_length[OF le])
qed

lemma bc_index_preimage:
  assumes c: "broadcastable_to s t" and pos: "0 \<notin> set t" and ia: "ia \<in> set (indices s)"
  shows "\<exists>idx\<in>set (indices t). bc_index s idx = ia"
proof -
  define off where "off = length t - length s"
  define idx where "idx = replicate off 0 @ ia"
  from ia have lia: "length ia = length s" and lt: "\<And>j. j < length s \<Longrightarrow> ia ! j < s ! j"
    by (simp_all add: in_indices_iff)
  from c have le: "length s \<le> length t" by (simp add: broadcastable_to_def)
  then have lidx: "length idx = length t" by (simp add: idx_def off_def lia)
  have "idx ! j < t ! j" if j: "j < length t" for j
  proof (cases "j < off")
    case True
    from j pos have "t ! j \<noteq> 0" by (metis nth_mem)
    with True show ?thesis by (simp add: idx_def nth_append)
  next
    case False
    define j' where "j' = j - off"
    from False j le have j': "j' < length s" "j = j' + off" by (simp_all add: j'_def off_def)
    have ij: "idx ! j = ia ! j'" using False by (simp add: idx_def nth_append j'_def)
    from j pos have tj: "t ! j \<noteq> 0" by (metis nth_mem)
    from c j' have "s ! j' = 1 \<or> s ! j' = t ! j"
      by (auto simp: broadcastable_to_def off_def)
    with lt[OF j'(1)] tj show ?thesis unfolding ij by auto
  qed
  with lidx have mem: "idx \<in> set (indices t)" by (simp add: in_indices_iff)
  have le': "length s \<le> length idx" using le lidx by simp
  have "bc_index s idx = ia"
  proof (rule nth_equalityI)
    show "length (bc_index s idx) = length ia" by (simp add: bc_index_length[OF le'] lia)
  next
    fix j assume "j < length (bc_index s idx)"
    then have j: "j < length s" by (simp add: bc_index_length[OF le'])
    have o: "length idx - length s = off" by (simp only: lidx off_def)
    have "idx ! (length (replicate off (0::nat)) + j) = ia ! j"
      unfolding idx_def by (rule nth_append_length_plus)
    then have "idx ! (j + (length idx - length s)) = ia ! j"
      by (simp only: o length_replicate add.commute)
    with lt[OF j] show "bc_index s idx ! j = ia ! j"
      by (auto simp: bc_index_nth[OF le' j])
  qed
  with mem show ?thesis by blast
qed

lemma set_flat_broadcast_to:
  assumes wf: "wf_array a" and c: "broadcastable_to (shape a) t" and pos: "0 \<notin> set t"
  shows "set (flat (broadcast_to a t)) = set (flat a)"
proof (intro equalityI subsetI)
  fix x assume "x \<in> set (flat (broadcast_to a t))"
  then obtain idx where idx: "idx \<in> set (indices t)"
    and x: "x = flat a ! ravel (shape a) (bc_index (shape a) idx)"
    by (auto simp: broadcast_to_def nd_item_def)
  from indices_nth_ravel[OF bc_index_in_indices[OF c idx]] wf
  have "ravel (shape a) (bc_index (shape a) idx) < length (flat a)"
    by (simp add: wf_array_def)
  with x show "x \<in> set (flat a)" by simp
next
  fix x assume "x \<in> set (flat a)"
  then obtain k where k: "k < length (flat a)" "x = flat a ! k"
    by (auto simp: in_set_conv_nth)
  define ia where "ia = indices (shape a) ! k"
  from k wf have kl: "k < length (indices (shape a))"
    by (simp add: wf_array_def length_indices)
  then have ia: "ia \<in> set (indices (shape a))" by (simp add: ia_def)
  have "map (ravel (shape a)) (indices (shape a)) ! k = [0..<prod_list (shape a)] ! k"
    by (simp only: map_ravel_indices)
  with kl have rk: "ravel (shape a) ia = k" by (simp add: ia_def length_indices)
  from bc_index_preimage[OF c pos ia] obtain idx where
    idx: "idx \<in> set (indices t)" "bc_index (shape a) idx = ia" by blast
  then have "flat a ! ravel (shape a) (bc_index (shape a) idx) \<in> set (flat (broadcast_to a t))"
    by (auto simp: broadcast_to_def nd_item_def)
  with idx rk k show "x \<in> set (flat (broadcast_to a t))" by simp
qed

lemma flat_broadcast_to_empty:
  "0 \<in> set t \<Longrightarrow> flat (broadcast_to a t) = []"
proof -
  assume "0 \<in> set t"
  then have "prod_list t = 0" by (simp add: prod_list_zero_iff)
  then have "length (flat (broadcast_to a t)) = 0"
    by (simp add: broadcast_to_def length_indices)
  then show ?thesis by simp
qed

section \<open>Reductions\<close>

lemma np_asarray_same_shape:
  assumes "\<forall>b\<in>set bs. shape b = t"
  shows "\<exists>A. np_asarray bs = Inr A \<and> flat A = concat (map flat bs)"
proof (cases bs)
  case Nil
  then show ?thesis by (simp add: np_asarray_def)
next
  case (Cons b bs')
  with assms have "list_all (\<lambda>c. shape c = shape b) bs"
    by (simp add: list_all_iff)
  with Cons show ?thesis by (simp add: np_asarray_def)
qed

lemma accessed_reduction_is_ensemble:
  assumes "name \<in> REDUCTIONS"
  shows "(case ArrayTuple_getattr g self name of
            Inl e \<Rightarrow> ensemble_reduction name self = Inl e
          | Inr (Reduction p) \<Rightarrow> call_partial p = ensemble_reduction name self
          | Inr (Members vs) \<Rightarrow> False)"
proof (cases "broadcast_shape (map shape self)")
  case (Inl e)
  with assms show ?thesis
    by (simp add: ArrayTuple_getattr_def np_broadcast_arrays_def ensemble_reduction_def)
next
  case (Inr t)
  define bs where "bs = map (\<lambda>a. broadcast_to a t) self"
  have "\<forall>b\<in>set bs. shape b = t" by (auto simp: bs_def broadcast_to_def)
  from np_asarray_same_shape[OF this] obtain A where
    A: "np_asarray bs = Inr A" "flat A = concat (map flat bs)" by blast
  have "ArrayTuple_getattr g self name = Inr (Reduction (Partial name bs))"
    using assms Inr by (simp add: ArrayTuple_getattr_def np_broadcast_arrays_def bs_def)
  moreover have "call_partial (Partial name bs) = reduce_elements name (concat (map flat bs))"
    using A by (simp add: np_function_def)
  moreover have "ensemble_reduction name self = reduce_elements name (concat (map flat bs))"
    using Inr by (simp add: ensemble_reduction_def bs_def comp_def)
  ultimately show ?thesis by simp
qed

lemma Min_concat:
  fixes xss :: "('a::linorder) list list"
  assumes "xss \<noteq> []" and "\<forall>xs\<in>set xss. xs \<noteq> []"
  shows "Min (set (concat xss)) = Min (set (map (\<lambda>xs. Min (set xs)) xss))"
  using assms
proof (induction xss)
  case Nil
  then show ?case by simp
next
  case (Cons xs yss)
  show ?case
  proof (cases "yss = []")
    case True
    then show ?thesis by simp
  next
    case False
    with Cons have IH: "Min (set (concat yss)) = Min (set (map (\<lambda>xs. Min (set xs)) yss))"
      by simp
    from False Cons.prems obtain ys where "ys \<in> set yss" "ys \<noteq> []" by (cases yss) auto
    then have ne: "set (concat yss) \<noteq> {}" by auto
    from Cons.prems have "set xs \<noteq> {}" by simp
    with ne have "Min (set xs \<union> set (concat yss)) = min (Min (set xs)) (Min (set (concat yss)))"
      by (intro Min_Un) simp_all
    moreover have "Min (insert (Min (set xs)) (set (map (\<lambda>xs. Min (set xs)) yss))) =
        min (Min (set xs)) (Min (set (map (\<lambda>xs. Min (set xs)) yss)))"
      using False by (intro Min_insert) simp_all
    ultimately show ?thesis using IH by simp
  qed
qed

lemma Max_concat:
  fixes xss :: "('a::linorder) list list"
  assumes "xss \<noteq> []" and "\<forall>xs\<in>set xss. xs \<noteq> []"
  shows "Max (set (concat xss)) = Max (set (map (\<lambda>xs. Max (set xs)) xss))"
  using assms
proof (induction xss)
  case Nil
  then show ?case by simp
next
  case (Cons xs yss)
  show ?case
  proof (cases "yss = []")
    case True
    then show ?thesis by simp
  next
    case False
    with Cons have IH: "Max (set (concat yss)) = Max (set (map (\<lambda>xs. Max (set xs)) yss))"
      by simp
    from False Cons.prems obtain ys where "ys \<in> set yss" "ys \<noteq> []" by (cases yss) auto
    then have ne: "set (concat yss) \<noteq> {}" by auto
    from Cons.prems have "set xs \<noteq> {}" by simp
    with ne have "Max (set xs \<union> set (concat yss)) = max (Max (set xs)) (Max (set (concat yss)))"
      by (intro Max_Un) simp_all
    moreover have "Max (insert (Max (set xs)) (set (map (\<lambda>xs. Max (set xs)) yss))) =
        max (Max (set xs)) (Max (set (map (\<lambda>xs. Max (set xs)) yss)))"
      using False by (intro Max_insert) simp_all
    ultimately show ?thesis using IH by simp
  qed
qed

lemma reduce_min:
  "reduce_elements ''min'' xs =
     (if xs = [] then Inl (ValueError ''zero-size array to reduction operation minimum which has no identity'')
      else Inr (Num (Min (set xs))))"
proof (cases xs)
  case Nil
  then show ?thesis by (simp add: reduce_elements_def)
next
  case (Cons y ys)
  have "fold min ys y = Min (set (y # ys))" by (simp only: Min.set_eq_fold)
  with Cons show ?thesis by (simp add: reduce_elements_def)
qed

lemma reduce_max:
  "reduce_elements ''max'' xs =
     (if xs = [] then Inl (ValueError ''zero-size array to reduction operation maximum which has no identity'')
      else Inr (Num (Max (set xs))))"
proof (cases xs)
  case Nil
  then show ?thesis by (simp add: reduce_elements_def)
next
  case (Cons y ys)
  have "fold max ys y = Max (set (y # ys))" by (simp only: Max.set_eq_fold)
  with Cons show ?thesis by (simp add: reduce_elements_def)
qed

lemma ensemble_eq_per_member:
  fixes self :: "('a::{comm_semiring_1,linorder}) ndarray list"
    and F :: "'a set \<Rightarrow> 'a"
  assumes R: "\<And>xs. R xs = (if xs = [] then Inl e else Inr (Num (F (set xs))))"
    and F: "\<And>xss. xss \<noteq> [] \<Longrightarrow> \<forall>xs\<in>set xss. xs \<noteq> [] \<Longrightarrow>
              F (set (concat xss)) = F (set (map (\<lambda>xs. F (set xs)) xss))"
    and wf: "\<forall>a\<in>set self. wf_array a"
    and bs: "broadcast_shape (map shape self) = Inr t"
  shows "R (concat (map (\<lambda>a. flat (broadcast_to a t)) self)) =
         (case tuple_of (map (\<lambda>a. R (flat a)) self) of
            Inl e \<Rightarrow> Inl e
          | Inr rs \<Rightarrow> R (map scalar_value rs))"
proof (cases "\<exists>a\<in>set self. flat a = []")
  case True
  then obtain a where a: "a \<in> set self" "flat a = []" by blast
  from wf a(1) have "length (flat a) = prod_list (shape a)" by (auto simp: wf_array_def)
  with a(2) have "prod_list (shape a) = 0" by simp
  then have "0 \<in> set (shape a)" by (simp add: prod_list_zero_iff)
  with a(1) have "\<exists>s\<in>set (map shape self). 0 \<in> set s" by auto
  then have zt: "0 \<in> set t" using broadcast_shape_zero[OF bs] by blast
  have "concat (map (\<lambda>a. flat (broadcast_to a t)) self) = []"
    by (simp add: flat_broadcast_to_empty[OF zt])
  then have lhs: "R (concat (map (\<lambda>a. flat (broadcast_to a t)) self)) = Inl e"
    by (simp add: R)
  have "tuple_of (map (\<lambda>a. R (flat a)) self) = Inl e"
  proof (rule tuple_of_first_error)
    have "R (flat a) = Inl e" using a(2) by (simp add: R)
    with a(1) show "Inl e \<in> set (map (\<lambda>a. R (flat a)) self)"
      by (metis image_eqI list.set_map)
    show "\<forall>x\<in>set (map (\<lambda>a. R (flat a)) self). isl x \<longrightarrow> x = Inl e"
      by (auto simp: R split: if_splits)
  qed
  with lhs show ?thesis by simp
next
  case False
  then have ne: "\<forall>a\<in>set self. flat a \<noteq> []" by blast
  have "\<not> (\<exists>s\<in>set (map shape self). 0 \<in> set s)"
  proof
    assume "\<exists>s\<in>set (map shape self). 0 \<in> set s"
    then obtain a where a: "a \<in> set self" "0 \<in> set (shape a)" by auto
    then have "prod_list (shape a) = 0" by (simp add: prod_list_zero_iff)
    moreover from wf a(1) have "length (flat a) = prod_list (shape a)" by (auto simp: wf_array_def)
    ultimately have "flat a = []" by simp
    with ne a(1) show False by blast
  qed
  then have pos: "0 \<notin> set t" using broadcast_shape_zero[OF bs] by blast
  have sets: "set (flat (broadcast_to a t)) = set (flat a)" if "a \<in> set self" for a
  proof (rule set_flat_broadcast_to)
    from wf that show "wf_array a" by blast
    from that show "broadcastable_to (shape a) t"
      by (intro broadcast_shape_broadcastable[OF bs]) simp
    show "0 \<notin> set t" by (rule pos)
  qed
  have rs: "tuple_of (map (\<lambda>a. R (flat a)) self) = Inr (map (\<lambda>a. Num (F (set (flat a)))) self)"
  proof -
    have "map (\<lambda>a. R (flat a)) self = map Inr (map (\<lambda>a. Num (F (set (flat a)))) self)"
      using ne by (simp add: R)
    then show ?thesis by (simp only: tuple_of_map_Inr)
  qed
  show ?thesis
  proof (cases "self = []")
    case True
    then show ?thesis by simp
  next
    case nonempty: False
    define xss where "xss = map (\<lambda>a. flat (broadcast_to a t)) self"
    have x1: "xss \<noteq> []" using nonempty by (simp add: xss_def)
    have x2: "\<forall>xs\<in>set xss. xs \<noteq> []"
    proof
      fix xs assume "xs \<in> set xss"
      then obtain a where a: "a \<in> set self" "xs = flat (broadcast_to a t)"
        by (auto simp: xss_def)
      with sets[OF a(1)] ne show "xs \<noteq> []" by (metis set_empty)
    qed
    have "map (\<lambda>xs. F (set xs)) xss = map (\<lambda>a. F (set (flat a))) self"
      unfolding xss_def map_map comp_def
      by (rule map_cong) (simp_all add: sets)
    with F[OF x1 x2] have "F (set (concat xss)) = F (set (map (\<lambda>a. F (set (flat a))) self))"
      by simp
    moreover have "concat xss \<noteq> []" using x1 x2 by (cases xss) auto
    ultimately have "R (concat xss) = Inr (Num (F (set (map (\<lambda>a. F (set (flat a))) self))))"
      by (simp add: R)
    moreover have "R (map scalar_value (map (\<lambda>a. Num (F (set (flat a)))) self)) =
        Inr (Num (F (set (map (\<lambda>a. F (set (flat a))) self))))"
      using nonempty by (simp add: R comp_def)
    ultimately show ?thesis by (simp add: rs xss_def)
  qed
qed

lemma min_max_ensemble_eq_per_member:
  fixes self :: "('a::{comm_semiring_1,linorder}) ndarray list"
  assumes name: "name = ''min'' \<or> name = ''max''"
    and wf: "\<forall>a\<in>set self. wf_array a"
    and bs: "broadcast_shape (map shape self) = Inr t"
  shows "ensemble_reduction name self = per_member_reduction name self"
proof -
  from name show ?thesis
  proof
    assume n: "name = ''min''"
    from ensemble_eq_per_member[of "reduce_elements ''min''" _ Min, OF reduce_min Min_concat wf bs]
    show ?thesis
      by (simp add: ensemble_reduction_def per_member_reduction_def bs n)
  next
    assume n: "name = ''max''"
    from ensemble_eq_per_member[of "reduce_elements ''max''" _ Max, OF reduce_max Max_concat wf bs]
    show ?thesis
      by (simp add: ensemble_reduction_def per_member_reduction_def bs n)
  qed
qed

section \<open>Claims about ArrayTuple\<close>

text \<open>
  C6. \<open>broadcast()\<close> is idempotent: when it succeeds with members \<open>bs\<close>, applying
  it to \<open>bs\<close> again succeeds with the same members, shapes and elements alike; and when
  all members are well-formed arrays of one shape \<open>t\<close> already, it returns them
  unchanged.
\<close>

theorem broadcast_idempotent:
  "(ArrayTuple_broadcast self = Inr bs \<longrightarrow> ArrayTuple_broadcast bs = Inr bs) \<and>
   ((\<forall>a\<in>set self. shape a = t \<and> wf_array a) \<longrightarrow> ArrayTuple_broadcast self = Inr self)"
proof (intro conjI impI)
  assume "ArrayTuple_broadcast self = Inr bs"
  then obtain t' where bs: "bs = map (\<lambda>a. broadcast_to a t') self"
    unfolding ArrayTuple_broadcast_def by (rule np_broadcast_arrays_result)
  have "\<forall>b\<in>set bs. shape b = t' \<and> wf_array b"
    by (simp add: bs wf_broadcast_to) (simp add: broadcast_to_def)
  then show "ArrayTuple_broadcast bs = Inr bs"
    unfolding ArrayTuple_broadcast_def by (rule np_broadcast_arrays_dense)
next
  assume "\<forall>a\<in>set self. shape a = t \<and> wf_array a"
  then show "ArrayTuple_broadcast self = Inr self"
    unfolding ArrayTuple_broadcast_def by (rule np_broadcast_arrays_dense)
qed

theorem broadcast_idempotent_witness:
  "ArrayTuple_broadcast [NDArray [2, 1] [1, 2 :: int], NDArray [1, 3] [10, 20, 30]] =
     Inr [NDArray [2, 3] [1, 1, 1, 2, 2, 2], NDArray [2, 3] [10, 20, 30, 10, 20, 30]] \<and>
   ArrayTuple_broadcast [NDArray [2, 3] [1, 1, 1, 2, 2, 2 :: int], NDArray [2, 3] [10, 20, 30, 10, 20, 30]] =
     Inr [NDArray [2, 3] [1, 1, 1, 2, 2, 2], NDArray [2, 3] [10, 20, 30, 10, 20, 30]] \<and>
   wf_array (NDArray [2, 3] [1, 1, 1, 2, 2, 2 :: int]) \<and>
   wf_array (NDArray [2, 3] [10, 20, 30, 10, 20, 30 :: int])"
proof -
  let ?self = "[NDArray [2, 1] [1, 2 :: int], NDArray [1, 3] [10, 20, 30]]"
  let ?bs = "[NDArray [2, 3] [1, 1, 1, 2, 2, 2 :: int], NDArray [2, 3] [10, 20, 30, 10, 20, 30]]"
  have once: "ArrayTuple_broadcast ?self = Inr ?bs"
    by code_simp
  have dense: "\<forall>a\<in>set ?bs. shape a = [2, 3] \<and> wf_array a"
    by (simp add: wf_array_def)
  from broadcast_idempotent[of ?self ?bs "[2, 3]"] once
  have twice: "ArrayTuple_broadcast ?bs = Inr ?bs"
    by blast
  from once twice dense show ?thesis by simp
qed

text \<open>
  C9. With zero members, \<open>broadcast()\<close> returns the empty \<open>ArrayTuple\<close> and the access
  to each of the six reduction names succeeds, giving the function bound to the empty
  ensemble. Called, that gives what the array library gives on an array without elements:
  0 for \<open>sum\<close>, 1 for \<open>prod\<close>, false for \<open>any\<close>, true for \<open>all\<close>, and the library's
  own \<open>ValueError\<close> for \<open>min\<close> and \<open>max\<close>, which have no identity.
\<close>

theorem empty_ensemble:
  "ArrayTuple_broadcast ([] :: ('a::{comm_semiring_1,linorder}) ArrayTuple) = Inr [] \<and>
   ArrayTuple_getattr g ([] :: 'a ArrayTuple) ''sum'' = Inr (Reduction (Partial ''sum'' [])) \<and>
   ArrayTuple_getattr g ([] :: 'a ArrayTuple) ''any'' = Inr (Reduction (Partial ''any'' [])) \<and>
   ArrayTuple_getattr g ([] :: 'a ArrayTuple) ''all'' = Inr (Reduction (Partial ''all'' [])) \<and>
   ArrayTuple_getattr g ([] :: 'a ArrayTuple) ''min'' = Inr (Reduction (Partial ''min'' [])) \<and>
   ArrayTuple_getattr g ([] :: 'a ArrayTuple) ''max'' = Inr (Reduction (Partial ''max'' [])) \<and>
   ArrayTuple_getattr g ([] :: 'a ArrayTuple) ''prod'' = Inr (Reduction (Partial ''prod'' [])) \<and>
   call_partial (Partial ''sum'' [] :: 'a partial) = Inr (Num 0) \<and>
   call_partial (Partial ''prod'' [] :: 'a partial) = Inr (Num 1) \<and>
   call_partial (Partial ''any'' [] :: 'a partial) = Inr (Bool False) \<and>
   call_partial (Partial ''all'' [] :: 'a partial) = Inr (Bool True) \<and>
   call_partial (Partial ''min'' [] :: 'a partial) =
     Inl (ValueError ''zero-size array to reduction operation minimum which has no identity'') \<and>
   call_partial (Partial ''max'' [] :: 'a partial) =
     Inl (ValueError ''zero-size array to reduction operation maximum which has no identity'')"
  by (simp add: ArrayTuple_broadcast_def ArrayTuple_getattr_def REDUCTIONS_def
      np_broadcast_arrays_def broadcast_shape_Nil np_function_def np_asarray_def
      reduce_elements_def)

text \<open>
  C5. For a reduction name the result of \<open>__getattr__\<close> is the function bound to the
  broadcast members (or the error of the broadcast), whatever the members answer to
  \<open>getattr\<close>: it does not depend on \<open>member_getattr\<close> and is never the tuple of the
  members' attributes.
\<close>

theorem reduction_shadows_member_attribute:
  "name \<in> REDUCTIONS \<Longrightarrow>
     ArrayTuple_getattr g self name =
       (case np_broadcast_arrays self of
          Inl e \<Rightarrow> Inl e
        | Inr bs \<Rightarrow> Inr (Reduction (Partial name bs))) \<and>
     ArrayTuple_getattr g self name = ArrayTuple_getattr g' self name \<and>
     (\<forall>vs. ArrayTuple_getattr g self name \<noteq> Inr (Members vs))"
  by (simp add: ArrayTuple_getattr_def split: sum.splits)

text \<open>
  The members of \<open>sparse_pair\<close> each have an attribute \<open>sum\<close> (their own sum, 3 and
  60); the access still gives the reduction over the ensemble.
\<close>

theorem reduction_shadows_member_attribute_witness:
  "''sum'' \<in> REDUCTIONS \<and>
   ArrayTuple_getattr (\<lambda>a n. Inr (sum_list (flat a))) sparse_pair ''sum'' =
     Inr (Reduction (Partial ''sum''
       [NDArray [2, 3] [1, 1, 1, 2, 2, 2], NDArray [2, 3] [10, 20, 30, 10, 20, 30]])) \<and>
   ArrayTuple_getattr (\<lambda>a n. Inr (sum_list (flat a))) sparse_pair ''sum'' \<noteq> Inr (Members [3, 60])"
proof -
  have name: "''sum'' \<in> REDUCTIONS" by (simp add: REDUCTIONS_def)
  have bc: "np_broadcast_arrays sparse_pair =
      Inr [NDArray [2, 3] [1, 1, 1, 2, 2, 2], NDArray [2, 3] [10, 20, 30, 10, 20, 30]]"
    by code_simp
  from reduction_shadows_member_attribute[OF name, of "\<lambda>a n. Inr (sum_list (flat a))" sparse_pair]
  have "ArrayTuple_getattr (\<lambda>a n. Inr (sum_list (flat a))) sparse_pair ''sum'' =
          (case np_broadcast_arrays sparse_pair of
             Inl e \<Rightarrow> Inl e
           | Inr bs \<Rightarrow> Inr (Reduction (Partial ''sum'' bs)))"
    and "ArrayTuple_getattr (\<lambda>a n. Inr (sum_list (flat a))) sparse_pair ''sum'' \<noteq> Inr (Members [3, 60])"
    by blast+
  with name bc show ?thesis by simp
qed

text \<open>
  C2 (amended). Accessing a reduction name gives the function bound to the broadcast
  members, and calling it is the reduction over the ensemble in the spec's words: all
  members broadcast to the common shape, put together and reduced as one (when the
  members cannot be broadcast together, the access raises the error of the broadcast).
  For \<open>min\<close> and \<open>max\<close> this is the same, on every tuple of well-formed arrays that
  can be broadcast together, as reducing each member separately and combining the
  results; for \<open>sum\<close>, \<open>prod\<close>, \<open>any\<close> and \<open>all\<close> there are such tuples on which
  the two differ.
\<close>

theorem reduction_semantics:
  "(name \<in> REDUCTIONS \<longrightarrow>
      (case ArrayTuple_getattr g self name of
         Inl e \<Rightarrow> ensemble_reduction name self = Inl e
       | Inr (Reduction p) \<Rightarrow> call_partial p = ensemble_reduction name self
       | Inr (Members vs) \<Rightarrow> False)) \<and>
   ((name = ''min'' \<or> name = ''max'') \<and> (\<forall>a\<in>set self. wf_array a) \<and>
    broadcast_shape (map shape self) = Inr t \<longrightarrow>
      ensemble_reduction name self = per_member_reduction name self) \<and>
   list_all wf_array sparse_pair \<and> broadcast_shape (map shape sparse_pair) = Inr [2, 3] \<and>
   list_all wf_array (with_empty x) \<and> broadcast_shape (map shape (with_empty x)) = Inr [0] \<and>
   ensemble_reduction ''sum'' sparse_pair = Inr (Num 129) \<and>
   per_member_reduction ''sum'' sparse_pair = Inr (Num 63) \<and>
   ensemble_reduction ''prod'' sparse_pair = Inr (Num 288000000) \<and>
   per_member_reduction ''prod'' sparse_pair = Inr (Num 12000) \<and>
   ensemble_reduction ''any'' (with_empty 1) = Inr (Bool False) \<and>
   per_member_reduction ''any'' (with_empty 1) = Inr (Bool True) \<and>
   ensemble_reduction ''all'' (with_empty 0) = Inr (Bool True) \<and>
   per_member_reduction ''all'' (with_empty 0) = Inr (Bool False)"
proof (intro conjI impI)
  assume "name \<in> REDUCTIONS"
  then show "(case ArrayTuple_getattr g self name of
         Inl e \<Rightarrow> ensemble_reduction name self = Inl e
       | Inr (Reduction p) \<Rightarrow> call_partial p = ensemble_reduction name self
       | Inr (Members vs) \<Rightarrow> False)"
    by (rule accessed_reduction_is_ensemble)
next
  assume "(name = ''min'' \<or> name = ''max'') \<and> (\<forall>a\<in>set self. wf_array a) \<and>
    broadcast_shape (map shape self) = Inr t"
  then show "ensemble_reduction name self = per_member_reduction name self"
    by (intro min_max_ensemble_eq_per_member) blast+
next
  show "list_all wf_array sparse_pair" by (simp add: sparse_pair_def wf_array_def)
  show "broadcast_shape (map shape sparse_pair) = Inr [2, 3]" by code_simp
  show "list_all wf_array (with_empty x)" by (simp add: with_empty_def wf_array_def)
  show "broadcast_shape (map shape (with_empty x)) = Inr [0]"
    by (simp add: with_empty_def broadcast_shape_def pad_shape_def)
  show "ensemble_reduction ''sum'' sparse_pair = Inr (Num 129)" by code_simp
  show "per_member_reduction ''sum'' sparse_pair = Inr (Num 63)" by code_simp
  show "ensemble_reduction ''prod'' sparse_pair = Inr (Num 288000000)" by code_simp
  show "per_member_reduction ''prod'' sparse_pair = Inr (Num 12000)" by code_simp
  show "ensemble_reduction ''any'' (with_empty 1) = Inr (Bool False)" by code_simp
  show "per_member_reduction ''any'' (with_empty 1) = Inr (Bool True)" by code_simp
  show "ensemble_reduction ''all'' (with_empty 0) = Inr (Bool True)" by code_simp
  show "per_member_reduction ''all'' (with_empty 0) = Inr (Bool False)" by code_simp
qed

text \<open>
  On \<open>sparse_pair\<close> the minimum over the ensemble, reached through \<open>__getattr__\<close>, is
  1, and so is the minimum of the members' minima 1 and 10.
\<close>

theorem reduction_semantics_witness:
  "''min'' \<in> REDUCTIONS \<and>
   wf_array (NDArray [2, 1] [1, 2 :: int]) \<and> wf_array (NDArray [1, 3] [10, 20, 30 :: int]) \<and>
   broadcast_shape (map shape sparse_pair) = Inr [2, 3] \<and>
   ArrayTuple_getattr (\<lambda>a n. Inr (sum_list (flat a))) sparse_pair ''min'' =
     Inr (Reduction (Partial ''min''
       [NDArray [2, 3] [1, 1, 1, 2, 2, 2], NDArray [2, 3] [10, 20, 30, 10, 20, 30]])) \<and>
   call_partial (Partial ''min''
       [NDArray [2, 3] [1, 1, 1, 2, 2, 2 :: int], NDArray [2, 3] [10, 20, 30, 10, 20, 30]]) = Inr (Num 1) \<and>
   ensemble_reduction ''min'' sparse_pair = Inr (Num 1) \<and>
   per_member_reduction ''min'' sparse_pair = Inr (Num 1)"
proof -
  let ?g = "\<lambda>(a :: int ndarray) (n :: string). (Inr (sum_list (flat a)) :: py_error + int)"
  let ?bs = "[NDArray [2, 3] [1, 1, 1, 2, 2, 2 :: int], NDArray [2, 3] [10, 20, 30, 10, 20, 30]]"
  have name: "''min'' \<in> REDUCTIONS" by (simp add: REDUCTIONS_def)
  have wf: "\<forall>a\<in>set sparse_pair. wf_array a" by (simp add: sparse_pair_def wf_array_def)
  have bs: "broadcast_shape (map shape sparse_pair) = Inr [2, 3]" by code_simp
  have pm: "per_member_reduction ''min'' sparse_pair = Inr (Num 1)" by code_simp
  have bc: "np_broadcast_arrays sparse_pair = Inr ?bs" by code_simp
  from name bc have get: "ArrayTuple_getattr ?g sparse_pair ''min'' = Inr (Reduction (Partial ''min'' ?bs))"
    by (simp add: ArrayTuple_getattr_def)
  from reduction_semantics[where name = "''min''" and g = ?g and self = sparse_pair and t = "[2, 3]"]
    name wf bs
  have "(case ArrayTuple_getattr ?g sparse_pair ''min'' of
           Inl e \<Rightarrow> ensemble_reduction ''min'' sparse_pair = Inl e
         | Inr (Reduction p) \<Rightarrow> call_partial p = ensemble_reduction ''min'' sparse_pair
         | Inr (Members vs) \<Rightarrow> False)"
    and eq: "ensemble_reduction ''min'' sparse_pair = per_member_reduction ''min'' sparse_pair"
    by blast+
  then have "call_partial (Partial ''min'' ?bs) = ensemble_reduction ''min'' sparse_pair"
    by (simp add: get)
  with name wf bs pm get eq show ?thesis by (simp add: sparse_pair_def)
qed

text \<open>
  The claim as stated, that for each of the six names the reduction over the ensemble is
  not equivalent to the per-member one, fails: for \<open>min\<close> there is no tuple of
  well-formed arrays that can be broadcast together on which the two differ.
\<close>

theorem reduction_semantics_counterexample:
  "\<not> (\<forall>name\<in>REDUCTIONS. \<exists>self :: int ArrayTuple.
        (\<forall>a\<in>set self. wf_array a) \<and> (\<exists>t. broadcast_shape (map shape self) = Inr t) \<and>
        ensemble_reduction name self \<noteq> per_member_reduction name self)"
proof
  assume "\<forall>name\<in>REDUCTIONS. \<exists>self :: int ArrayTuple.
        (\<forall>a\<in>set self. wf_array a) \<and> (\<exists>t. broadcast_shape (map shape self) = Inr t) \<and>
        ensemble_reduction name self \<noteq> per_member_reduction name self"
  moreover have "''min'' \<in> REDUCTIONS" by (simp add: REDUCTIONS_def)
  ultimately obtain self :: "int ArrayTuple" and t where
    "\<forall>a\<in>set self. wf_array a" "broadcast_shape (map shape self) = Inr t"
    "ensemble_reduction ''min'' self \<noteq> per_member_reduction ''min'' self"
    by blast
  with min_max_ensemble_eq_per_member[of "''min''" self t] show False by blast
qed

section \<open>Claims about AxesTuple\<close>

text \<open>
  C4. Construction from a sequence with an element that is not an \<open>Axis\<close> fails with
  the \<open>TypeError\<close> that names the first such element, and returns no container;
  construction from a sequence of \<open>Axis\<close> objects, the empty one included, returns the
  container of exactly these members.
\<close>

theorem construction_validates:
  "((\<exists>r\<in>set xs. \<not> isinstance_Axis (h r)) \<longrightarrow>
      (\<exists>pre r s post. xs = pre @ r # post \<and> (\<forall>p\<in>set pre. isinstance_Axis (h p)) \<and>
         h r = OtherObj s \<and>
         (AxesTuple_new h xs :: py_error + 'w AxesTuple) =
           Inl (TypeError (''Only an iterable of Axis supported in AxesTuple, got '' @ s)))) \<and>
   ((\<forall>r\<in>set xs. isinstance_Axis (h r)) \<longrightarrow>
      (AxesTuple_new h xs :: py_error + 'w AxesTuple) = Inr \<lparr>members = xs, own = Map.empty\<rparr>) \<and>
   (AxesTuple_new h [] :: py_error + 'w AxesTuple) = Inr \<lparr>members = [], own = Map.empty\<rparr>"
proof (intro conjI impI)
  assume "\<exists>r\<in>set xs. \<not> isinstance_Axis (h r)"
  then have "init_loop h xs \<noteq> None" by (simp add: init_loop_None)
  then obtain e where e: "init_loop h xs = Some e" by blast
  from init_loop_Some[OF e] e
  show "\<exists>pre r s post. xs = pre @ r # post \<and> (\<forall>p\<in>set pre. isinstance_Axis (h p)) \<and>
         h r = OtherObj s \<and>
         (AxesTuple_new h xs :: py_error + 'w AxesTuple) =
           Inl (TypeError (''Only an iterable of Axis supported in AxesTuple, got '' @ s))"
    unfolding AxesTuple_new_def by (elim exE conjE) (intro exI conjI, assumption+, simp)
next
  assume "\<forall>r\<in>set xs. isinstance_Axis (h r)"
  then have "init_loop h xs = None" by (simp add: init_loop_None)
  then show "(AxesTuple_new h xs :: py_error + 'w AxesTuple) = Inr \<lparr>members = xs, own = Map.empty\<rparr>"
    by (simp add: AxesTuple_new_def)
next
  show "(AxesTuple_new h [] :: py_error + 'w AxesTuple) = Inr \<lparr>members = [], own = Map.empty\<rparr>"
    by (simp add: AxesTuple_new_def)
qed

theorem construction_validates_witness:
  "\<not> isinstance_Axis (example_store 2) \<and>
   (AxesTuple_new example_store [0, 2, 1] :: py_error + string AxesTuple) =
     Inl (TypeError ''Only an iterable of Axis supported in AxesTuple, got 42'') \<and>
   isinstance_Axis (example_store 0) \<and> isinstance_Axis (example_store 1) \<and>
   (AxesTuple_new example_store [0, 1] :: py_error + string AxesTuple) = Inr example_axes"
proof -
  have bad: "\<exists>r\<in>set [0, 2, 1]. \<not> isinstance_Axis (example_store r)"
    by (simp add: example_store_def)
  have good: "\<forall>r\<in>set [0, 1]. isinstance_Axis (example_store r)"
    by (simp add: example_store_def)
  from construction_validates[of "[0, 2, 1]" example_store, where 'w = string] bad
  obtain pre r s post where
    split: "[0, 2, 1] = pre @ r # post" "\<forall>p\<in>set pre. isinstance_Axis (example_store p)"
      "example_store r = OtherObj s"
    and err: "(AxesTuple_new example_store [0, 2, 1] :: py_error + string AxesTuple) =
      Inl (TypeError (''Only an iterable of Axis supported in AxesTuple, got '' @ s))"
    by blast
  from split(3) have "s = ''42''"
    by (simp add: example_store_def split: if_splits)
  with err have e: "(AxesTuple_new example_store [0, 2, 1] :: py_error + string AxesTuple) =
      Inl (TypeError ''Only an iterable of Axis supported in AxesTuple, got 42'')"
    by simp
  from construction_validates[of "[0, 1]" example_store, where 'w = string] good
  have "(AxesTuple_new example_store [0, 1] :: py_error + string AxesTuple) =
      Inr \<lparr>members = [0, 1], own = Map.empty\<rparr>"
    by blast
  with e show ?thesis by (simp add: example_store_def example_axes_def)
qed



text \<open>
  C8. An integer index in range, counted from the front when non-negative and from the
  end when negative, returns the member at that position as it is; a slice \<open>start:stop\<close>
  of a container of axes returns a new container, built by the validating constructor,
  whose members are the corresponding sub-sequence in order.
\<close>

theorem indexing_and_slicing:
  "(0 \<le> i \<and> i < int (length (members self)) \<longrightarrow>
      AxesTuple_getitem h self (Index i) = Inr (Bare (members self ! nat i))) \<and>
   (- int (length (members self)) \<le> i \<and> i < 0 \<longrightarrow>
      AxesTuple_getitem h self (Index i) = Inr (Bare (members self ! nat (i + int (length (members self)))))) \<and>
   ((\<forall>r\<in>set (members self). isinstance_Axis (h r)) \<longrightarrow>
      AxesTuple_getitem h self (Slice start stop None) =
        Inr (Wrapped \<lparr>members = subsequence (members self) start stop, own = Map.empty\<rparr>) \<and>
      (\<forall>r\<in>set (subsequence (members self) start stop). isinstance_Axis (h r)))"
proof (intro conjI impI)
  assume "0 \<le> i \<and> i < int (length (members self))"
  then have "tuple_getitem (members self) (Index i) = Inr (Inl (members self ! nat i))"
    by (intro tuple_getitem_nonneg) simp_all
  then show "AxesTuple_getitem h self (Index i) = Inr (Bare (members self ! nat i))"
    unfolding AxesTuple_getitem_def by (simp only: sum.case)
next
  assume "- int (length (members self)) \<le> i \<and> i < 0"
  then have "tuple_getitem (members self) (Index i) =
      Inr (Inl (members self ! nat (i + int (length (members self)))))"
    by (intro tuple_getitem_neg) simp_all
  then show "AxesTuple_getitem h self (Index i) =
      Inr (Bare (members self ! nat (i + int (length (members self)))))"
    unfolding AxesTuple_getitem_def by (simp only: sum.case)
next
  assume valid: "\<forall>r\<in>set (members self). isinstance_Axis (h r)"
  then show "\<forall>r\<in>set (subsequence (members self) start stop). isinstance_Axis (h r)"
    by (rule subsequence_valid)
  then show "AxesTuple_getitem h self (Slice start stop None) =
        Inr (Wrapped \<lparr>members = subsequence (members self) start stop, own = Map.empty\<rparr>)"
    by (rule AxesTuple_getitem_slice)
qed

theorem indexing_and_slicing_witness:
  "AxesTuple_getitem example_store example_axes (Index 1) = Inr (Bare 1) \<and>
   AxesTuple_getitem example_store example_axes (Index (- 1)) = Inr (Bare 1) \<and>
   isinstance_Axis (example_store 0) \<and> isinstance_Axis (example_store 1) \<and>
   AxesTuple_getitem example_store example_axes (Slice (Some 0) (Some 1) None) =
     Inr (Wrapped \<lparr>members = [0], own = Map.empty\<rparr>)"
proof -
  have valid: "\<forall>r\<in>set (members example_axes). isinstance_Axis (example_store r)"
    by (simp add: example_store_def example_axes_def)
  have sub: "subsequence (members example_axes) (Some 0) (Some 1) = [0]"
    by (simp add: subsequence_def slice_bound_def example_axes_def)
  have i1: "0 \<le> (1::int) \<and> (1::int) < int (length (members example_axes))"
    by (simp add: example_axes_def)
  have i2: "- int (length (members example_axes)) \<le> - 1 \<and> (- 1 :: int) < 0"
    by (simp add: example_axes_def)
  from indexing_and_slicing[of 1 example_axes example_store] i1
  have a: "AxesTuple_getitem example_store example_axes (Index 1) =
      Inr (Bare (members example_axes ! nat 1))"
    by blast
  from indexing_and_slicing[of "- 1" example_axes example_store] i2
  have b: "AxesTuple_getitem example_store example_axes (Index (- 1)) =
      Inr (Bare (members example_axes ! nat (- 1 + int (length (members example_axes)))))"
    by blast
  from indexing_and_slicing[of 0 example_axes example_store "Some 0" "Some 1"] valid
  have c: "AxesTuple_getitem example_store example_axes (Slice (Some 0) (Some 1) None) =
      Inr (Wrapped \<lparr>members = subsequence (members example_axes) (Some 0) (Some 1), own = Map.empty\<rparr>)"
    by blast
  from a b c sub valid show ?thesis by (simp add: example_axes_def)
qed









end
